theory Spec2Isabelle
  imports Complex_Main
begin

section \<open>Instants and durations\<close>

text \<open>
  The source computes with Python's \<^verbatim>\<open>datetime\<close> and \<^verbatim>\<open>timedelta\<close>. An instant is
  modelled by its count of microseconds since the midnight that starts proleptic Gregorian
  day number 0, that is \<^verbatim>\<open>toordinal() * 86400000000\<close> plus the microseconds of the time of
  day; a duration is a count of microseconds. Comparison and subtraction of instants are
  then those of \<^typ>\<open>int\<close>. The \<^verbatim>\<open>float\<close> hours of the business-hours clock are modelled
  as exact rationals; the floats of the compliance report as binary64 numbers.
\<close>

type_synonym datetime = int
type_synonym timedelta = int

definition us_per_second :: int where
  "us_per_second = 1000000"

definition us_per_minute :: int where
  "us_per_minute = 60000000"

definition us_per_hour :: int where
  "us_per_hour = 3600000000"

definition us_per_day :: int where
  "us_per_day = 86400000000"

text \<open>\<^verbatim>\<open>date.min.toordinal()\<close> and \<^verbatim>\<open>date.max.toordinal()\<close> (years 1 to 9999).\<close>

definition min_ordinal :: int where
  "min_ordinal = 1"

definition max_ordinal :: int where
  "max_ordinal = 3652059"

definition toordinal :: "datetime \<Rightarrow> int" where
  "toordinal t = t div us_per_day"

definition time_of_day :: "datetime \<Rightarrow> int" where
  "time_of_day t = t mod us_per_day"

text \<open>\<^verbatim>\<open>weekday()\<close>: Monday is 0 and Sunday is 6; day number 1 is a Monday.\<close>

definition weekday :: "datetime \<Rightarrow> int" where
  "weekday t = (toordinal t + 6) mod 7"

definition hour :: "datetime \<Rightarrow> int" where
  "hour t = time_of_day t div us_per_hour"

definition minute :: "datetime \<Rightarrow> int" where
  "minute t = (time_of_day t mod us_per_hour) div us_per_minute"

definition in_range :: "datetime \<Rightarrow> bool" where
  "in_range t \<longleftrightarrow> min_ordinal \<le> toordinal t \<and> toordinal t \<le> max_ordinal"

text \<open>
  Building an instant from calendar fields, as \<^verbatim>\<open>datetime(y, m, d, hh, mm, ss, us)\<close> does
  for fields that are in range; used to write concrete instants.
\<close>

definition is_leap :: "int \<Rightarrow> bool" where
  "is_leap y \<longleftrightarrow> y mod 4 = 0 \<and> (y mod 100 \<noteq> 0 \<or> y mod 400 = 0)"

definition days_before_year :: "int \<Rightarrow> int" where
  "days_before_year y = (y - 1) * 365 + (y - 1) div 4 - (y - 1) div 100 + (y - 1) div 400"

definition days_before_month :: "int \<Rightarrow> int \<Rightarrow> int" where
  "days_before_month y m =
     [0, 31, 59, 90, 120, 151, 181, 212, 243, 273, 304, 334] ! nat (m - 1)
       + (if 2 < m \<and> is_leap y then 1 else 0)"

definition ymd2ord :: "int \<Rightarrow> int \<Rightarrow> int \<Rightarrow> int" where
  "ymd2ord y m d = days_before_year y + days_before_month y m + d"

definition mk_datetime :: "int \<Rightarrow> int \<Rightarrow> int \<Rightarrow> int \<Rightarrow> int \<Rightarrow> int \<Rightarrow> int \<Rightarrow> datetime" where
  "mk_datetime y m d hh mm ss us =
     ymd2ord y m d * us_per_day + hh * us_per_hour + mm * us_per_minute + ss * us_per_second + us"

section \<open>Errors\<close>

text \<open>
  The exceptions the modelled functions can raise: \<^verbatim>\<open>OverflowError\<close> when date arithmetic
  leaves the years 1 to 9999, \<^verbatim>\<open>TypeError\<close> when an instant is compared with \<^verbatim>\<open>None\<close> or
  \<^verbatim>\<open>None\<close> is subtracted from it, \<^verbatim>\<open>ZeroDivisionError\<close> when \<^verbatim>\<open>/\<close> divides by zero.
\<close>

datatype error = OverflowError | TypeError | ZeroDivisionError

text \<open>\<^verbatim>\<open>datetime + timedelta\<close>: the sum, or \<^verbatim>\<open>OverflowError\<close> when its date is out of range.\<close>

definition dt_add :: "datetime \<Rightarrow> timedelta \<Rightarrow> error + datetime" where
  "dt_add t d = (if in_range (t + d) then Inr (t + d) else Inl OverflowError)"

text \<open>\<^verbatim>\<open>t.replace(hour=9, minute=0, second=0, microsecond=0)\<close>: 09:00 on the date of \<open>t\<close>.\<close>

definition replace_9am :: "datetime \<Rightarrow> datetime" where
  "replace_9am t = toordinal t * us_per_day + 9 * us_per_hour"

text \<open>\<^verbatim>\<open>timedelta(days=n)\<close>.\<close>

definition days :: "int \<Rightarrow> timedelta" where
  "days n = n * us_per_day"

text \<open>Rounding to the nearest integer, ties to the even one, as \<^verbatim>\<open>timedelta\<close> and \<^verbatim>\<open>round\<close> do.\<close>

definition round_half_even :: "rat \<Rightarrow> int" where
  "round_half_even x =
     (let f = \<lfloor>x\<rfloor>; r = x - of_int f
      in if r < 1 / 2 then f
         else if 1 / 2 < r then f + 1
         else if even f then f else f + 1)"

text \<open>\<^verbatim>\<open>timedelta(hours=h)\<close>: a duration is a whole number of microseconds.\<close>

definition timedelta_hours :: "rat \<Rightarrow> timedelta" where
  "timedelta_hours h = round_half_even (h * of_int us_per_hour)"

section \<open>The business-hours clock (src/desktop.py, add_business_hours)\<close>

text \<open>
  The part of the loop body after the weekend and after-hours checks: the hours left today,
  and either the final addition (which sets \<^verbatim>\<open>remaining_hours\<close> to 0) or the move to 09:00
  of the next day. The body returns the new \<^verbatim>\<open>(current_time, remaining_hours)\<close>.
\<close>

definition consume_today :: "datetime \<Rightarrow> rat \<Rightarrow> error + (datetime \<times> rat)" where
  "consume_today current_time remaining_hours =
     (let hours_left_today = 18 - of_int (hour current_time) - of_int (minute current_time) / 60
      in if remaining_hours \<le> hours_left_today then
           (case dt_add current_time (timedelta_hours remaining_hours) of
              Inl e \<Rightarrow> Inl e
            | Inr t \<Rightarrow> Inr (t, 0))
         else
           (case dt_add current_time (days 1) of
              Inl e \<Rightarrow> Inl e
            | Inr t \<Rightarrow> Inr (replace_9am t, remaining_hours - hours_left_today)))"

definition loop_body :: "datetime \<Rightarrow> rat \<Rightarrow> error + (datetime \<times> rat)" where
  "loop_body current_time remaining_hours =
     (if 5 \<le> weekday current_time then
        (case dt_add current_time (days 1) of
           Inl e \<Rightarrow> Inl e
         | Inr t \<Rightarrow> Inr (replace_9am t, remaining_hours))
      else if hour current_time < 9 then
        consume_today (replace_9am current_time) remaining_hours
      else if 18 \<le> hour current_time then
        (case dt_add current_time (days 1) of
           Inl e \<Rightarrow> Inl e
         | Inr t \<Rightarrow> Inr (replace_9am t, remaining_hours))
      else consume_today current_time remaining_hours)"

text \<open>The measure of the loop: the calendar days left before \<^verbatim>\<open>date.max\<close>.\<close>

definition days_to_max :: "datetime \<times> rat \<Rightarrow> nat" where
  "days_to_max s = (if 0 < snd s then Suc (nat (max_ordinal + 1 - toordinal (fst s))) else 0)"

lemma toordinal_replace_9am: "toordinal (replace_9am t) = toordinal t"
  by (simp add: replace_9am_def toordinal_def us_per_day_def us_per_hour_def)

lemma toordinal_add_day: "toordinal (t + days 1) = toordinal t + 1"
  by (simp add: toordinal_def days_def us_per_day_def)

lemma dt_add_day_Inr:
  assumes "dt_add t (days 1) = Inr t'"
  shows "toordinal (replace_9am t') = toordinal t + 1" and "toordinal t + 1 \<le> max_ordinal"
  using assms
  by (auto simp: dt_add_def in_range_def toordinal_replace_9am toordinal_add_day
      split: if_splits)

lemma consume_today_decreases:
  assumes "consume_today c r = Inr (c', r')" and "0 < r"
  shows "days_to_max (c', r') < days_to_max (c, r)"
proof -
  let ?left = "18 - of_int (hour c) - of_int (minute c) / (60::rat)"
  show ?thesis
  proof (cases "r \<le> ?left")
    case True
    with assms have "r' = 0"
      by (auto simp: consume_today_def Let_def split: sum.splits)
    with assms(2) show ?thesis by (simp add: days_to_max_def)
  next
    case False
    with assms(1) obtain t where t: "dt_add c (days 1) = Inr t" and c': "c' = replace_9am t"
      by (auto simp: consume_today_def Let_def split: sum.splits)
    from dt_add_day_Inr [OF t] c' assms(2) show ?thesis
      by (simp add: days_to_max_def)
  qed
qed

lemma skip_day_decreases:
  assumes "(case dt_add c (days 1) of Inl e \<Rightarrow> Inl e | Inr t \<Rightarrow> Inr (replace_9am t, r)) = Inr (c', r')"
    and "0 < r"
  shows "days_to_max (c', r') < days_to_max (c, r)"
proof (cases "dt_add c (days 1)")
  case (Inl e)
  with assms(1) show ?thesis by simp
next
  case (Inr t)
  with assms(1) have "c' = replace_9am t" and "r' = r" by simp_all
  with dt_add_day_Inr [OF Inr] assms(2) show ?thesis
    by (simp add: days_to_max_def)
qed

lemma loop_body_decreases:
  assumes "loop_body c r = Inr (c', r')" and "0 < r"
  shows "days_to_max (c', r') < days_to_max (c, r)"
proof (cases "5 \<le> weekday c")
  case True
  with assms(1) show ?thesis
    by (simp add: loop_body_def skip_day_decreases [OF _ assms(2)])
next
  case weekday: False
  show ?thesis
  proof (cases "hour c < 9")
    case True
    with weekday assms(1) have "consume_today (replace_9am c) r = Inr (c', r')"
      by (simp add: loop_body_def)
    from consume_today_decreases [OF this assms(2)] assms(2) show ?thesis
      by (simp add: days_to_max_def toordinal_replace_9am)
  next
    case early: False
    show ?thesis
    proof (cases "18 \<le> hour c")
      case True
      with weekday early assms(1) show ?thesis
        by (simp add: loop_body_def skip_day_decreases [OF _ assms(2)])
    next
      case False
      with weekday early assms(1) have "consume_today c r = Inr (c', r')"
        by (simp add: loop_body_def)
      from consume_today_decreases [OF this assms(2)] show ?thesis .
    qed
  qed
qed

text \<open>The \<^verbatim>\<open>while remaining_hours > 0\<close> loop, and the function around it.\<close>

function add_business_hours_loop :: "datetime \<Rightarrow> rat \<Rightarrow> error + datetime" where
  "add_business_hours_loop current_time remaining_hours =
     (if 0 < remaining_hours then
        (case loop_body current_time remaining_hours of
           Inl e \<Rightarrow> Inl e
         | Inr (current_time', remaining_hours') \<Rightarrow>
             add_business_hours_loop current_time' remaining_hours')
      else Inr current_time)"
  by pat_completeness auto
termination
proof (relation "measure days_to_max")
  show "wf (measure days_to_max)" by simp
next
  fix current_time :: datetime and remaining_hours :: rat and b x y
  assume "0 < remaining_hours" and "loop_body current_time remaining_hours = Inr b"
    and "(x, y) = b"
  then have "days_to_max (x, y) < days_to_max (current_time, remaining_hours)"
    using loop_body_decreases [of current_time remaining_hours x y] by simp
  then show "((x, y), current_time, remaining_hours) \<in> measure days_to_max" by simp
qed

definition add_business_hours :: "datetime \<Rightarrow> rat \<Rightarrow> error + datetime" where
  "add_business_hours start_time hours = add_business_hours_loop start_time hours"

section \<open>Tickets (src/models.py)\<close>

text \<open>
  The columns of \<^verbatim>\<open>Customer\<close> and \<^verbatim>\<open>Ticket\<close> that the SLA service reads. A nullable column
  is an \<open>option\<close>. \<^verbatim>\<open>id\<close> is the primary key, \<^verbatim>\<open>status\<close> has the column default
  \<^verbatim>\<open>"open"\<close> and \<^verbatim>\<open>created_at\<close> the server default \<^verbatim>\<open>now()\<close>, and the creation of a ticket in
  src/main.py sets both: these three are taken to hold a value in every row. The two due
  instants are written only after the ticket's first commit, so a row can lack them.
\<close>

record customer =
  tier :: string

record ticket =
  id_pk :: int
  priority :: "string option"
  category :: "string option"
  status :: string
  customer :: "customer option"
  created_at :: datetime
  first_response_at :: "datetime option"
  resolved_at :: "datetime option"
  first_response_due :: "datetime option"
  resolution_due :: "datetime option"

section \<open>Breach scanning (src/desktop.py, SLAService.check_sla_breaches)\<close>

text \<open>
  One dictionary of the returned list. \<^verbatim>\<open>breach_duration\<close> holds the \<^verbatim>\<open>timedelta\<close> that the
  source renders with \<^verbatim>\<open>str\<close>.
\<close>

record breach =
  ticket_id :: int
  breach_type :: string
  breach_duration :: timedelta
  priority :: "string option"
  customer_tier :: string

text \<open>
  The database is the list of the rows of \<^verbatim>\<open>tickets\<close>, in the order in which a query
  returns them; \<^verbatim>\<open>db.query(Ticket).filter(...).all()\<close> keeps the rows on which the SQL
  condition is true. A comparison with a \<^verbatim>\<open>NULL\<close> due instant is not true.
\<close>

definition due_before :: "datetime option \<Rightarrow> datetime \<Rightarrow> bool" where
  "due_before due current_time = (case due of None \<Rightarrow> False | Some d \<Rightarrow> d < current_time)"

definition first_response_breaches :: "ticket list \<Rightarrow> datetime \<Rightarrow> ticket list" where
  "first_response_breaches db current_time =
     filter (\<lambda>t. due_before (first_response_due t) current_time
                 \<and> first_response_at t = None
                 \<and> status t \<noteq> ''closed'') db"

definition resolution_breaches :: "ticket list \<Rightarrow> datetime \<Rightarrow> ticket list" where
  "resolution_breaches db current_time =
     filter (\<lambda>t. due_before (resolution_due t) current_time
                 \<and> resolved_at t = None
                 \<and> status t \<noteq> ''closed'') db"

text \<open>\<^verbatim>\<open>ticket.customer.tier if ticket.customer else 'standard'\<close>.\<close>

definition customer_tier_of :: "ticket \<Rightarrow> string" where
  "customer_tier_of t = (case customer t of Some c \<Rightarrow> tier c | None \<Rightarrow> ''standard'')"

text \<open>
  The two \<^verbatim>\<open>for\<close> loops, each appending to \<^verbatim>\<open>breached_tickets\<close>. Subtracting \<^verbatim>\<open>None\<close> from
  \<^verbatim>\<open>current_time\<close> would raise \<^verbatim>\<open>TypeError\<close>.
\<close>

fun append_first_response :: "datetime \<Rightarrow> ticket list \<Rightarrow> breach list \<Rightarrow> error + breach list" where
  "append_first_response current_time [] breached_tickets = Inr breached_tickets"
| "append_first_response current_time (t # rest) breached_tickets =
     (case first_response_due t of
        None \<Rightarrow> Inl TypeError
      | Some due \<Rightarrow>
          append_first_response current_time rest
            (breached_tickets @
              [\<lparr>ticket_id = id_pk t,
                breach_type = ''first_response'',
                breach_duration = current_time - due,
                priority = ticket.priority t,
                customer_tier = customer_tier_of t\<rparr>]))"

fun append_resolution :: "datetime \<Rightarrow> ticket list \<Rightarrow> breach list \<Rightarrow> error + breach list" where
  "append_resolution current_time [] breached_tickets = Inr breached_tickets"
| "append_resolution current_time (t # rest) breached_tickets =
     (case resolution_due t of
        None \<Rightarrow> Inl TypeError
      | Some due \<Rightarrow>
          append_resolution current_time rest
            (breached_tickets @
              [\<lparr>ticket_id = id_pk t,
                breach_type = ''resolution'',
                breach_duration = current_time - due,
                priority = ticket.priority t,
                customer_tier = customer_tier_of t\<rparr>]))"

text \<open>\<^verbatim>\<open>current_time\<close> is the value of \<^verbatim>\<open>datetime.utcnow()\<close> at the call.\<close>

definition check_sla_breaches :: "ticket list \<Rightarrow> datetime \<Rightarrow> error + breach list" where
  "check_sla_breaches db current_time =
     (case append_first_response current_time (first_response_breaches db current_time) [] of
        Inl e \<Rightarrow> Inl e
      | Inr breached_tickets \<Rightarrow>
          append_resolution current_time (resolution_breaches db current_time) breached_tickets)"

section \<open>Compliance report (src/desktop.py, SLAService.generate_sla_report)\<close>

text \<open>
  The returned dictionary and its two nested dictionaries. The period holds the two
  instants that the source renders with \<^verbatim>\<open>isoformat\<close>.
\<close>

record first_response_section =
  compliance_rate :: rat
  tickets_met :: nat
  avg_response_time_hours :: rat

record resolution_section =
  compliance_rate :: rat
  tickets_met :: nat
  avg_resolution_time_hours :: rat

record sla_report =
  period :: "datetime \<times> datetime"
  total_tickets :: nat
  first_response_sla :: first_response_section
  resolution_sla :: resolution_section

subsection \<open>Floating-point numbers\<close>

text \<open>
  The numbers of the report are Python floats, that is IEEE 754 binary64 numbers. A finite
  float is modelled by the rational number it denotes, and an operation on floats by its
  exact result rounded to the nearest float, ties to the even mantissa, as IEEE 754
  prescribes. Numbers below the normal range are rounded to a multiple of \<open>2\<^sup>-\<^sup>1\<^sup>0\<^sup>7\<^sup>4\<close>; the
  upper end of the exponent range is not modelled, the numbers of a report being far below.
\<close>

text \<open>The integer part of the binary logarithm of an integer from 1 on.\<close>

function ilog2 :: "int \<Rightarrow> int" where
  "ilog2 n = (if n < 2 then 0 else 1 + ilog2 (n div 2))"
  by pat_completeness auto
termination
  by (relation "measure nat") auto

declare ilog2.simps [simp del]

text \<open>The binary exponent of a positive number \<open>x\<close>: the \<open>e\<close> with \<open>2\<^sup>e \<le> x < 2\<^sup>e\<^sup>+\<^sup>1\<close>.\<close>

definition exponent2 :: "rat \<Rightarrow> int" where
  "exponent2 x =
     (if 1 \<le> x then ilog2 \<lfloor>x\<rfloor>
      else - (1 + ilog2 (\<lceil>1 / x\<rceil> - 1)))"

definition pow2 :: "int \<Rightarrow> rat" where
  "pow2 e = (if 0 \<le> e then 2 ^ nat e else 1 / 2 ^ nat (- e))"

text \<open>The float nearest to a number: 53 bits of mantissa, ties to even.\<close>

definition float64 :: "rat \<Rightarrow> rat" where
  "float64 x =
     (if x = 0 then 0
      else let ulp = pow2 (max (exponent2 \<bar>x\<bar>) (- 1022) - 52)
           in of_int (round_half_even (x / ulp)) * ulp)"

text \<open>
  \<^verbatim>\<open>sum(xs)\<close> on a list of floats, with the start value 0: the additions from left to right,
  each rounded (as CPython does up to version 3.11; later versions compensate the rounding
  errors of the additions).
\<close>

definition py_sum :: "rat list \<Rightarrow> rat" where
  "py_sum xs = foldl (\<lambda>s x. float64 (s + x)) 0 xs"

text \<open>
  \<^verbatim>\<open>round(x, 2)\<close>: the decimal number with two places nearest to the value of \<open>x\<close>, ties to
  the even digit, and the float nearest to that number. On the integer 0 it is 0.
\<close>

definition round2 :: "rat \<Rightarrow> rat" where
  "round2 x = float64 (of_int (round_half_even (x * 100)) / 100)"

text \<open>
  \<^verbatim>\<open>(b - a).total_seconds() / 3600\<close>: the microseconds divided by \<open>10\<^sup>6\<close>, rounded to a float,
  and that float divided by 3600, rounded again.
\<close>

definition hours_between :: "datetime \<Rightarrow> datetime \<Rightarrow> rat" where
  "hours_between a b = float64 (float64 (of_int (b - a) / of_int us_per_second) / 3600)"

text \<open>
  The query: the creation instant within the closed range and, when \<^verbatim>\<open>category\<close> is
  truthy (neither \<^verbatim>\<open>None\<close> nor the empty string), the category equal to it.
\<close>

definition query_tickets :: "ticket list \<Rightarrow> datetime \<Rightarrow> datetime \<Rightarrow> string option \<Rightarrow> ticket list" where
  "query_tickets db start_date end_date category_arg =
     (let query = filter (\<lambda>t. start_date \<le> created_at t \<and> created_at t \<le> end_date) db
      in case category_arg of
           None \<Rightarrow> query
         | Some c \<Rightarrow> if c \<noteq> [] then filter (\<lambda>t. category t = Some c) query else query)"

text \<open>
  The \<^verbatim>\<open>for ticket in tickets\<close> loop over the state \<^verbatim>\<open>(first_response_met, resolution_met,
  first_response_times, resolution_times)\<close>. Comparing an instant with a \<^verbatim>\<open>None\<close> due instant
  raises \<^verbatim>\<open>TypeError\<close>.
\<close>

type_synonym metrics = "nat \<times> nat \<times> rat list \<times> rat list"

definition count_ticket :: "ticket \<Rightarrow> metrics \<Rightarrow> error + metrics" where
  "count_ticket t s =
     (case s of (first_response_met, resolution_met, first_response_times, resolution_times) \<Rightarrow>
        (case (case first_response_at t of
                 None \<Rightarrow> Inr (first_response_met, first_response_times)
               | Some responded \<Rightarrow>
                   (case first_response_due t of
                      None \<Rightarrow> Inl TypeError
                    | Some due \<Rightarrow>
                        Inr (if responded \<le> due then first_response_met + 1 else first_response_met,
                             first_response_times @ [hours_between (created_at t) responded])))
         of Inl e \<Rightarrow> Inl e
          | Inr (first_response_met', first_response_times') \<Rightarrow>
              (case resolved_at t of
                 None \<Rightarrow>
                   Inr (first_response_met', resolution_met, first_response_times', resolution_times)
               | Some resolved \<Rightarrow>
                   (case resolution_due t of
                      None \<Rightarrow> Inl TypeError
                    | Some due \<Rightarrow>
                        Inr (first_response_met',
                             if resolved \<le> due then resolution_met + 1 else resolution_met,
                             first_response_times',
                             resolution_times @ [hours_between (created_at t) resolved])))))"

fun count_tickets :: "ticket list \<Rightarrow> metrics \<Rightarrow> error + metrics" where
  "count_tickets [] s = Inr s"
| "count_tickets (t # rest) s =
     (case count_ticket t s of Inl e \<Rightarrow> Inl e | Inr s' \<Rightarrow> count_tickets rest s')"

text \<open>
  \<^verbatim>\<open>a / b\<close> on two integers, or on a float and an integer that is a float as it stands:
  \<^verbatim>\<open>ZeroDivisionError\<close> when \<open>b\<close> is zero, the quotient rounded to a float otherwise.
\<close>

definition truediv :: "rat \<Rightarrow> rat \<Rightarrow> error + rat" where
  "truediv a b = (if b = 0 then Inl ZeroDivisionError else Inr (float64 (a / b)))"

text \<open>
  \<^verbatim>\<open>sum(xs) / len(xs)\<close> when \<^verbatim>\<open>xs\<close> is not empty, and the initial 0 otherwise. The length is
  converted to a float before the division.
\<close>

definition average :: "rat list \<Rightarrow> error + rat" where
  "average xs =
     (if xs \<noteq> [] then truediv (py_sum xs) (float64 (of_nat (length xs))) else Inr 0)"

text \<open>\<^verbatim>\<open>(met / total_tickets * 100) if total_tickets > 0 else 0\<close>.\<close>

definition compliance :: "nat \<Rightarrow> nat \<Rightarrow> error + rat" where
  "compliance met total_count =
     (if 0 < total_count then
        (case truediv (of_nat met) (of_nat total_count) of
           Inl e \<Rightarrow> Inl e
         | Inr q \<Rightarrow> Inr (float64 (q * 100)))
      else Inr 0)"

definition generate_sla_report ::
    "ticket list \<Rightarrow> datetime \<Rightarrow> datetime \<Rightarrow> string option \<Rightarrow> error + sla_report" where
  "generate_sla_report db start_date end_date category_arg =
     (let tickets = query_tickets db start_date end_date category_arg;
          total_count = length tickets
      in case count_tickets tickets (0, 0, [], []) of
           Inl e \<Rightarrow> Inl e
         | Inr (first_response_met, resolution_met, first_response_times, resolution_times) \<Rightarrow>
        (case average first_response_times of
           Inl e \<Rightarrow> Inl e
         | Inr avg_first_response_time \<Rightarrow>
        (case average resolution_times of
           Inl e \<Rightarrow> Inl e
         | Inr avg_resolution_time \<Rightarrow>
        (case compliance first_response_met total_count of
           Inl e \<Rightarrow> Inl e
         | Inr first_response_compliance \<Rightarrow>
        (case compliance resolution_met total_count of
           Inl e \<Rightarrow> Inl e
         | Inr resolution_compliance \<Rightarrow>
             Inr \<lparr>period = (start_date, end_date),
                  total_tickets = total_count,
                  first_response_sla =
                    \<lparr>first_response_section.compliance_rate = round2 first_response_compliance,
                     first_response_section.tickets_met = first_response_met,
                     avg_response_time_hours = round2 avg_first_response_time\<rparr>,
                  resolution_sla =
                    \<lparr>compliance_rate = round2 resolution_compliance,
                     tickets_met = resolution_met,
                     avg_resolution_time_hours = round2 avg_resolution_time\<rparr>\<rparr>)))))"

section \<open>Notions used to state and prove the properties\<close>







text \<open>
  The business hours that the loop can still consume on the day of an instant; the weekend
  days already passed at an instant; and a bound on the calendar days that the loop will
  step forward from a state: three for every working day of nine hours still needed, less
  the weekend days already passed.
\<close>

definition hours_available :: "datetime \<Rightarrow> rat" where
  "hours_available t =
     (if 5 \<le> weekday t \<or> 18 \<le> hour t then 0
      else if hour t < 9 then 9
      else 18 - of_int (hour t) - of_int (minute t) / 60)"

definition weekend_days_passed :: "datetime \<Rightarrow> int" where
  "weekend_days_passed t = (if weekday t = 5 then 1 else if weekday t = 6 then 2 else 0)"

definition days_needed :: "datetime \<Rightarrow> rat \<Rightarrow> int" where
  "days_needed t h =
     (if h \<le> hours_available t then 0
      else 3 * \<lceil>(h - hours_available t) / 9\<rceil> - weekend_days_passed t)"

text \<open>The stepping from a state stays within the dates that \<^verbatim>\<open>datetime\<close> can hold.\<close>

definition room :: "datetime \<Rightarrow> rat \<Rightarrow> bool" where
  "room t h \<longleftrightarrow> min_ordinal \<le> toordinal t \<and> toordinal t + days_needed t h \<le> max_ordinal"

section \<open>Example tickets\<close>

text \<open>
  Four tickets created on Monday 8 January 2024 at 09:00, due for a first response at
  13:00 the same day and for resolution on Wednesday 10 January at 09:00, and a query
  instant of Wednesday 10 January 2024, 12:00, after both due instants.
\<close>

definition example_now :: datetime where
  "example_now = mk_datetime 2024 1 10 12 0 0 0"

definition example_ticket :: "int \<Rightarrow> string \<Rightarrow> datetime option \<Rightarrow> datetime option \<Rightarrow> ticket" where
  "example_ticket i st responded resolved =
     \<lparr>id_pk = i, priority = Some ''high'', category = Some ''billing'', status = st,
      customer = None, created_at = mk_datetime 2024 1 8 9 0 0 0,
      first_response_at = responded, resolved_at = resolved,
      first_response_due = Some (mk_datetime 2024 1 8 13 0 0 0),
      resolution_due = Some (mk_datetime 2024 1 10 9 0 0 0)\<rparr>"

text \<open>Open, never answered and never resolved.\<close>

definition ticket_unanswered :: ticket where
  "ticket_unanswered = example_ticket 1 ''open'' None None"

text \<open>Closed, never answered and never resolved.\<close>

definition ticket_closed :: ticket where
  "ticket_closed = example_ticket 2 ''closed'' None None"

text \<open>Answered at 15:00, two hours after the due instant; not resolved.\<close>

definition ticket_late_response :: ticket where
  "ticket_late_response =
     example_ticket 3 ''in_progress'' (Some (mk_datetime 2024 1 8 15 0 0 0)) None"

text \<open>Answered at 10:00 and resolved the next day at 09:00, both in time.\<close>

definition ticket_on_time :: ticket where
  "ticket_on_time =
     example_ticket 4 ''resolved'' (Some (mk_datetime 2024 1 8 10 0 0 0))
       (Some (mk_datetime 2024 1 9 9 0 0 0))"

definition example_db :: "ticket list" where
  "example_db = [ticket_unanswered, ticket_closed, ticket_late_response, ticket_on_time]"

text \<open>Answered at 11:40:30, that is 9630 seconds or 2.675 hours after creation.\<close>

definition ticket_answered_1140 :: ticket where
  "ticket_answered_1140 =
     example_ticket 5 ''in_progress'' (Some (mk_datetime 2024 1 8 11 40 30 0)) None"

section \<open>Properties of the business-hours clock\<close>

lemma split_instant: "t = toordinal t * us_per_day + time_of_day t"
  by (simp add: toordinal_def time_of_day_def)

lemma replace_9am_fields:
  "toordinal (replace_9am t) = toordinal t"
  "hour (replace_9am t) = 9"
  "minute (replace_9am t) = 0"
  "weekday (replace_9am t) = weekday t"
  by (simp_all add: replace_9am_def toordinal_def hour_def minute_def weekday_def time_of_day_def
      us_per_day_def us_per_hour_def us_per_minute_def)

lemma timedelta_hours_1: "timedelta_hours 1 = us_per_hour"
  by (simp add: timedelta_hours_def round_half_even_def us_per_hour_def)

lemmas calendar_defs =
  mk_datetime_def ymd2ord_def days_before_year_def days_before_month_def is_leap_def
  us_per_day_def us_per_hour_def us_per_minute_def us_per_second_def

lemmas field_defs =
  toordinal_def time_of_day_def weekday_def hour_def minute_def
  in_range_def min_ordinal_def max_ordinal_def

text \<open>
  C2. On the Monday to Friday, 09:00 to 18:00 calendar, adding 2 business hours to 17:00 of
  a Friday returns 10:00 of the Monday three days later: one hour is consumed on Friday, the
  Saturday and the Sunday are skipped, and one hour is consumed on Monday.
\<close>

theorem friday_5pm_plus_2_hours:
  assumes fri: "weekday t = 4" and tod: "time_of_day t = 17 * us_per_hour"
    and rng: "min_ordinal \<le> toordinal t" "toordinal t + 3 \<le> max_ordinal"
  shows "\<exists>r. add_business_hours t 2 = Inr r \<and> toordinal r = toordinal t + 3
           \<and> weekday r = 0 \<and> time_of_day r = 10 * us_per_hour"
proof -
  let ?n = "toordinal t"
  have t: "t = ?n * us_per_day + 17 * us_per_hour"
    using split_instant [of t] tod by simp
  have h: "hour t = 17" and m: "minute t = 0"
    using tod by (simp_all add: hour_def minute_def us_per_hour_def us_per_minute_def)
  have wd: "(?n + 6) mod 7 = 4" using fri by (simp add: weekday_def)
  have ord1: "toordinal (t + days 1) = ?n + 1" by (rule toordinal_add_day)
  have add1: "dt_add t (days 1) = Inr (t + days 1)"
    using rng by (simp add: dt_add_def in_range_def ord1)
  let ?sat = "replace_9am (t + days 1)"
  have step1: "loop_body t 2 = Inr (?sat, 1)"
    using fri h m add1 by (simp add: loop_body_def consume_today_def)
  have sat_ord: "toordinal ?sat = ?n + 1" by (simp add: replace_9am_fields ord1)
  have sat_wd: "weekday ?sat = 5" using wd by (simp add: weekday_def sat_ord) presburger
  have add2: "dt_add ?sat (days 1) = Inr (?sat + days 1)"
    using rng by (simp add: dt_add_def in_range_def toordinal_add_day sat_ord)
  let ?sun = "replace_9am (?sat + days 1)"
  have step2: "loop_body ?sat 1 = Inr (?sun, 1)"
    using sat_wd add2 by (simp add: loop_body_def)
  have sun_ord: "toordinal ?sun = ?n + 2"
    by (simp add: replace_9am_fields toordinal_add_day sat_ord)
  have sun_wd: "weekday ?sun = 6" using wd by (simp add: weekday_def sun_ord) presburger
  have add3: "dt_add ?sun (days 1) = Inr (?sun + days 1)"
    using rng by (simp add: dt_add_def in_range_def toordinal_add_day sun_ord)
  let ?mon = "replace_9am (?sun + days 1)"
  have step3: "loop_body ?sun 1 = Inr (?mon, 1)"
    using sun_wd add3 by (simp add: loop_body_def)
  have mon_ord: "toordinal ?mon = ?n + 3"
    by (simp add: replace_9am_fields toordinal_add_day sun_ord)
  have mon_wd: "weekday ?mon = 0" using wd by (simp add: weekday_def mon_ord) presburger
  have mon_eq: "?mon = (?n + 3) * us_per_day + 9 * us_per_hour"
    using mon_ord
    by (simp add: replace_9am_def [of "?sun + days 1"] replace_9am_fields toordinal_add_day)
  let ?r = "?mon + us_per_hour"
  have r_ord: "toordinal ?r = ?n + 3"
    unfolding mon_eq by (simp add: toordinal_def us_per_day_def us_per_hour_def)
  have r_tod: "time_of_day ?r = 10 * us_per_hour"
    unfolding mon_eq by (simp add: time_of_day_def us_per_day_def us_per_hour_def)
  have r_wd: "weekday ?r = 0" using wd by (simp add: weekday_def r_ord) presburger
  have add4: "dt_add ?mon (timedelta_hours 1) = Inr ?r"
    using rng by (simp add: dt_add_def in_range_def timedelta_hours_1 r_ord)
  have step4: "loop_body ?mon 1 = Inr (?r, 0)"
    using mon_wd add4 by (simp add: loop_body_def consume_today_def replace_9am_fields)
  have "add_business_hours t 2 = Inr ?r"
    by (simp add: add_business_hours_def step1 step2 step3 step4)
  with r_ord r_wd r_tod show ?thesis by blast
qed

text \<open>
  The instance of Friday 5 January 2024, 17:00, which gives Monday 8 January 2024, 10:00.
\<close>

theorem friday_5pm_plus_2_hours_witness:
  "weekday (mk_datetime 2024 1 5 17 0 0 0) = 4
   \<and> time_of_day (mk_datetime 2024 1 5 17 0 0 0) = 17 * us_per_hour
   \<and> add_business_hours (mk_datetime 2024 1 5 17 0 0 0) 2 = Inr (mk_datetime 2024 1 8 10 0 0 0)"
proof -
  let ?t = "mk_datetime 2024 1 5 17 0 0 0"
  have fri: "weekday ?t = 4" and tod: "time_of_day ?t = 17 * us_per_hour"
    and rng: "min_ordinal \<le> toordinal ?t" "toordinal ?t + 3 \<le> max_ordinal"
    by (simp_all add: calendar_defs field_defs)
  from friday_5pm_plus_2_hours [OF fri tod rng]
  obtain r where r: "add_business_hours ?t 2 = Inr r"
    and ord: "toordinal r = toordinal ?t + 3" and rt: "time_of_day r = 10 * us_per_hour"
    by blast
  have "r = toordinal r * us_per_day + time_of_day r" by (rule split_instant)
  also have "\<dots> = (toordinal ?t + 3) * us_per_day + 10 * us_per_hour"
    by (simp only: ord rt)
  also have "\<dots> = mk_datetime 2024 1 8 10 0 0 0"
    by (simp add: calendar_defs field_defs)
  finally have "r = mk_datetime 2024 1 8 10 0 0 0" .
  with fri tod r show ?thesis by simp
qed

text \<open>
  C3. For every instant, on a working day or not, inside the business hours or not, adding 0
  business hours returns the instant itself: the loop is not entered, so nothing is snapped.
\<close>

theorem add_zero_hours_unchanged: "add_business_hours t 0 = Inr t"
  by (simp add: add_business_hours_def)

text \<open>
  C4, as the code has it. The function has no argument check: for every negative number of
  hours the loop condition is false at once and the start instant is returned unchanged; no
  error is raised.
\<close>

theorem negative_hours_returns_start:
  assumes "hours < 0"
  shows "add_business_hours t hours = Inr t"
  using assms by (simp add: add_business_hours_def)

text \<open>The instance of Saturday 6 January 2024, 03:00, and hours = -1.\<close>

theorem negative_hours_returns_start_witness:
  "(- 1 :: rat) < 0
   \<and> add_business_hours (mk_datetime 2024 1 6 3 0 0 0) (- 1) = Inr (mk_datetime 2024 1 6 3 0 0 0)"
  using negative_hours_returns_start [of "- 1" "mk_datetime 2024 1 6 3 0 0 0"] by simp

text \<open>
  C4, as the claim states it, fails: with hours = -3/2 at Friday 5 January 2024, 17:00 the
  call returns that instant and raises nothing.
\<close>

theorem negative_hours_not_rejected:
  "add_business_hours (mk_datetime 2024 1 5 17 0 0 0) (- 3 / 2) = Inr (mk_datetime 2024 1 5 17 0 0 0)"
  by (simp add: add_business_hours_def)

subsection \<open>Returning an instant\<close>

text \<open>
  The loop is a total function: its recursion was shown to terminate above, for every start
  instant and every number of hours. The only exception it can raise is \<^verbatim>\<open>OverflowError\<close>;
  what remains is when it returns an instant instead.
\<close>

lemma dt_add_error: "dt_add t d = Inl e \<Longrightarrow> e = OverflowError"
  by (simp add: dt_add_def split: if_splits)

lemma consume_today_error: "consume_today c h = Inl e \<Longrightarrow> e = OverflowError"
  by (auto simp: consume_today_def Let_def dest: dt_add_error split: if_splits sum.splits)

lemma loop_body_error: "loop_body c h = Inl e \<Longrightarrow> e = OverflowError"
  by (auto simp: loop_body_def dest: dt_add_error consume_today_error
      split: if_splits sum.splits)

lemma add_business_hours_loop_error:
  "add_business_hours_loop c h = Inl e \<Longrightarrow> e = OverflowError"
proof (induction c h rule: add_business_hours_loop.induct)
  case (1 c h)
  show ?case
  proof (cases "0 < h")
    case False
    with "1.prems" show ?thesis by (simp add: add_business_hours_loop.simps [of c h])
  next
    case True
    show ?thesis
    proof (cases "loop_body c h")
      case (Inl e')
      with True "1.prems" have "e = e'"
        by (simp add: add_business_hours_loop.simps [of c h])
      with Inl show ?thesis by (simp add: loop_body_error)
    next
      case (Inr p)
      obtain c' h' where p: "p = (c', h')" by (cases p)
      from True Inr p "1.prems" have "add_business_hours_loop c' h' = Inl e"
        by (simp add: add_business_hours_loop.simps [of c h])
      with "1.IH" [OF True Inr p [symmetric]] show ?thesis .
    qed
  qed
qed

lemma add_business_hours_error:
  "add_business_hours start_time hours = Inl e \<Longrightarrow> e = OverflowError"
  by (simp add: add_business_hours_def add_business_hours_loop_error)

lemma time_of_day_bounds: "0 \<le> time_of_day t" "time_of_day t < us_per_day"
  by (simp_all add: time_of_day_def us_per_day_def)

lemma hour_bounds: "0 \<le> hour t" "hour t \<le> 23"
proof -
  show "0 \<le> hour t"
    using time_of_day_bounds(1) [of t] by (simp add: hour_def us_per_hour_def)
  have "time_of_day t < 24 * us_per_hour"
    using time_of_day_bounds(2) [of t] by (simp add: us_per_day_def us_per_hour_def)
  then have "hour t < 24"
    by (simp add: hour_def us_per_hour_def div_less_iff_less_mult)
  then show "hour t \<le> 23" by simp
qed

lemma minute_bounds: "0 \<le> minute t" "minute t \<le> 59"
proof -
  have m: "0 \<le> time_of_day t mod us_per_hour" "time_of_day t mod us_per_hour < 60 * us_per_minute"
    by (simp_all add: us_per_hour_def us_per_minute_def)
  show "0 \<le> minute t"
    using m(1) by (simp add: minute_def us_per_minute_def)
  have "minute t < 60"
    using m(2) by (simp add: minute_def us_per_minute_def div_less_iff_less_mult)
  then show "minute t \<le> 59" by simp
qed

lemma weekday_bounds: "0 \<le> weekday t" "weekday t \<le> 6"
  by (simp_all add: weekday_def)

lemma time_of_day_split:
  "\<exists>rest. time_of_day t = hour t * us_per_hour + minute t * us_per_minute + rest
      \<and> 0 \<le> rest \<and> rest < us_per_minute"
proof -
  let ?r = "(time_of_day t mod us_per_hour) mod us_per_minute"
  have "time_of_day t = hour t * us_per_hour + time_of_day t mod us_per_hour"
    by (simp add: hour_def)
  also have "time_of_day t mod us_per_hour = minute t * us_per_minute + ?r"
    by (simp add: minute_def)
  finally have "time_of_day t = hour t * us_per_hour + minute t * us_per_minute + ?r"
    by simp
  moreover have "0 \<le> ?r" "?r < us_per_minute"
    by (simp_all add: us_per_minute_def)
  ultimately show ?thesis by blast
qed

lemma round_half_even_bounds: "\<lfloor>x\<rfloor> \<le> round_half_even x" "round_half_even x \<le> \<lceil>x\<rceil>"
proof -
  show "\<lfloor>x\<rfloor> \<le> round_half_even x"
    by (simp add: round_half_even_def Let_def)
  show "round_half_even x \<le> \<lceil>x\<rceil>"
  proof (cases "x = of_int \<lfloor>x\<rfloor>")
    case True
    then have "x - of_int \<lfloor>x\<rfloor> = 0" by simp
    then show ?thesis by (simp add: round_half_even_def Let_def)
  next
    case False
    then have "\<lceil>x\<rceil> = \<lfloor>x\<rfloor> + 1" by (simp add: ceiling_altdef)
    then show ?thesis by (simp add: round_half_even_def Let_def)
  qed
qed


lemma next_day_fields:
  assumes "toordinal c0 = n"
  shows "toordinal (replace_9am (c0 + days 1)) = n + 1"
    and "weekday (replace_9am (c0 + days 1)) = (n + 7) mod 7"
    and "hour (replace_9am (c0 + days 1)) = 9"
    and "minute (replace_9am (c0 + days 1)) = 0"
  using assms by (simp_all add: replace_9am_fields toordinal_add_day weekday_def)

lemma dt_add_next_day:
  assumes "min_ordinal \<le> toordinal c0" and "toordinal c0 + 1 \<le> max_ordinal"
  shows "dt_add c0 (days 1) = Inr (c0 + days 1)"
  using assms by (simp add: dt_add_def in_range_def toordinal_add_day)

lemma ceiling_ninth_pos: "0 < h \<Longrightarrow> 1 \<le> \<lceil>h / 9\<rceil>" for h :: rat
proof -
  assume "0 < h"
  then have "0 < \<lceil>h / 9\<rceil>" by simp
  then show ?thesis by linarith
qed

lemma ceiling_ninth_step: "\<lceil>(h - 9) / 9\<rceil> = \<lceil>h / 9\<rceil> - 1" for h :: rat
proof -
  have "(h - 9) / 9 = h / 9 - 1" by (simp add: diff_divide_distrib)
  then show ?thesis by (simp only: ceiling_diff_one)
qed

text \<open>The state at 09:00 of the day after a day with room left.\<close>

lemma room_next_day:
  assumes c': "c' = replace_9am (c0 + days 1)"
    and wd: "weekday c0 \<le> 6" "0 \<le> weekday c0"
    and h: "0 < h"
    and lo: "min_ordinal \<le> toordinal c0"
    and hi: "toordinal c0 + 3 * \<lceil>h / 9\<rceil> - weekend_days_passed c0 \<le> max_ordinal"
  shows "dt_add c0 (days 1) = Inr (c0 + days 1)" and "room c' h"
proof -
  let ?n = "toordinal c0"
  have n1: "1 \<le> \<lceil>h / 9\<rceil>" using h by (rule ceiling_ninth_pos)
  have pen: "weekend_days_passed c0 \<le> 2" by (simp add: weekend_days_passed_def)
  from hi n1 pen have "?n + 1 \<le> max_ordinal" by linarith
  with lo show "dt_add c0 (days 1) = Inr (c0 + days 1)" by (rule dt_add_next_day)
  have ord: "toordinal c' = ?n + 1" and hr: "hour c' = 9" and mi: "minute c' = 0"
    and w': "weekday c' = (?n + 7) mod 7"
    unfolding c' by (simp_all add: next_day_fields)
  have w0: "weekday c0 = (?n + 6) mod 7" by (simp add: weekday_def)
  have "days_needed c' h + 1 + weekend_days_passed c0 \<le> 3 * \<lceil>h / 9\<rceil>"
  proof -
    consider (sat) "weekday c0 = 5" | (sun) "weekday c0 = 6" | (fri) "weekday c0 = 4"
      | (mid) "weekday c0 \<le> 3"
      using wd by linarith
    then show ?thesis
    proof cases
      case sat
      then have "weekday c' = 6" using w0 w' by presburger
      then have "days_needed c' h = 3 * \<lceil>h / 9\<rceil> - 2"
        using h by (simp add: days_needed_def hours_available_def weekend_days_passed_def)
      moreover from sat have "weekend_days_passed c0 = 1"
        by (simp add: weekend_days_passed_def)
      ultimately show ?thesis by linarith
    next
      case sun
      then have "weekday c' = 0" using w0 w' by presburger
      then have "days_needed c' h = (if h \<le> 9 then 0 else 3 * (\<lceil>h / 9\<rceil> - 1))"
        using hr mi
        by (simp add: days_needed_def hours_available_def weekend_days_passed_def
            ceiling_ninth_step)
      moreover from sun have "weekend_days_passed c0 = 2"
        by (simp add: weekend_days_passed_def)
      ultimately show ?thesis using n1 by (cases "h \<le> 9") (simp_all del: one_le_ceiling)
    next
      case fri
      then have "weekday c' = 5" using w0 w' by presburger
      then have "days_needed c' h = 3 * \<lceil>h / 9\<rceil> - 1"
        using h by (simp add: days_needed_def hours_available_def weekend_days_passed_def)
      moreover from fri have "weekend_days_passed c0 = 0"
        by (simp add: weekend_days_passed_def)
      ultimately show ?thesis by linarith
    next
      case mid
      then have "weekday c' \<le> 4" "0 \<le> weekday c'" using w0 w' wd by presburger+
      then have "days_needed c' h = (if h \<le> 9 then 0 else 3 * (\<lceil>h / 9\<rceil> - 1))"
        using hr mi
        by (simp add: days_needed_def hours_available_def weekend_days_passed_def
            ceiling_ninth_step)
      moreover from mid have "weekend_days_passed c0 = 0"
        by (simp add: weekend_days_passed_def)
      ultimately show ?thesis using n1 by (cases "h \<le> 9") (simp_all del: one_le_ceiling)
    qed
  qed
  with hi lo ord show "room c' h"
    unfolding room_def by linarith
qed


lemma toordinal_same_day:
  assumes "0 \<le> time_of_day c + d" and "time_of_day c + d < us_per_day"
  shows "toordinal (c + d) = toordinal c"
proof -
  have "c + d = (time_of_day c + d) + toordinal c * us_per_day"
    using split_instant [of c] by simp
  then have "(c + d) div us_per_day = ((time_of_day c + d) + toordinal c * us_per_day) div us_per_day"
    by (rule arg_cong)
  also have "\<dots> = (time_of_day c + d) div us_per_day + toordinal c"
    by (simp add: us_per_day_def)
  also have "(time_of_day c + d) div us_per_day = 0"
    using assms by (simp add: div_pos_pos_trivial)
  finally show ?thesis by (simp add: toordinal_def)
qed

lemma hours_available_nonneg: "0 \<le> hours_available t"
proof -
  have "of_int (minute t) / 60 \<le> (1::rat)"
    using minute_bounds(2) [of t] by simp
  moreover have "hour t < 18 \<Longrightarrow> (of_int (hour t) :: rat) \<le> 17"
    by simp
  ultimately show ?thesis
    by (auto simp: hours_available_def)
qed

lemma days_needed_nonneg: "0 \<le> days_needed t h"
proof (cases "h \<le> hours_available t")
  case True
  then show ?thesis by (simp add: days_needed_def)
next
  case False
  then have "1 \<le> \<lceil>(h - hours_available t) / 9\<rceil>"
    by (intro ceiling_ninth_pos) simp
  moreover have "weekend_days_passed t \<le> 2" by (simp add: weekend_days_passed_def)
  ultimately show ?thesis using False by (simp add: days_needed_def del: one_le_ceiling)
qed

text \<open>The final addition stays within the day.\<close>

lemma finish_today:
  assumes hr: "9 \<le> hour c" "hour c < 18"
    and h: "0 < h" "h \<le> 18 - of_int (hour c) - of_int (minute c) / 60"
    and rng: "min_ordinal \<le> toordinal c" "toordinal c \<le> max_ordinal"
  shows "dt_add c (timedelta_hours h) = Inr (c + timedelta_hours h)"
    and "toordinal (c + timedelta_hours h) = toordinal c"
proof -
  let ?d = "timedelta_hours h"
  let ?left = "18 * us_per_hour - hour c * us_per_hour - minute c * us_per_minute"
  have "h * of_int us_per_hour \<le> (18 - of_int (hour c) - of_int (minute c) / 60) * of_int us_per_hour"
    using h(2) by (simp add: us_per_hour_def)
  also have "\<dots> = of_int ?left"
    by (simp add: us_per_hour_def us_per_minute_def algebra_simps)
  finally have "\<lceil>h * of_int us_per_hour\<rceil> \<le> ?left"
    by (simp add: ceiling_le_iff)
  with round_half_even_bounds(2) [of "h * of_int us_per_hour"]
  have up: "?d \<le> ?left" by (simp add: timedelta_hours_def)
  have "0 \<le> h * of_int us_per_hour" using h(1) by (simp add: us_per_hour_def)
  then have "0 \<le> \<lfloor>h * of_int us_per_hour\<rfloor>" by simp
  with round_half_even_bounds(1) [of "h * of_int us_per_hour"]
  have lo: "0 \<le> ?d" unfolding timedelta_hours_def by linarith
  from time_of_day_split [of c] obtain rest
    where tod: "time_of_day c = hour c * us_per_hour + minute c * us_per_minute + rest"
      and rest: "0 \<le> rest" "rest < us_per_minute"
    by blast
  have "time_of_day c + ?d \<le> 18 * us_per_hour + rest"
    using up tod by simp
  also have "\<dots> < us_per_day"
    using rest by (simp add: us_per_hour_def us_per_minute_def us_per_day_def)
  finally have a: "time_of_day c + ?d < us_per_day" .
  have b: "0 \<le> time_of_day c + ?d"
    using lo time_of_day_bounds(1) [of c] by simp
  show same: "toordinal (c + ?d) = toordinal c"
    using b a by (rule toordinal_same_day)
  show "dt_add c ?d = Inr (c + ?d)"
    using rng by (simp add: dt_add_def in_range_def same)
qed

lemma room_in_range:
  assumes "room c h"
  shows "min_ordinal \<le> toordinal c" and "toordinal c \<le> max_ordinal"
  using assms days_needed_nonneg [of c h] by (simp_all add: room_def)

lemma room_finished:
  assumes "toordinal c' = toordinal c" and "room c h"
  shows "room c' 0"
proof -
  have "days_needed c' 0 = 0"
    using hours_available_nonneg [of c'] by (simp add: days_needed_def)
  with assms room_in_range [OF assms(2)] show ?thesis by (simp add: room_def)
qed

text \<open>One round of the loop keeps the room.\<close>

lemma consume_today_room:
  assumes hr: "9 \<le> hour c0" "hour c0 < 18" and wd: "0 \<le> weekday c0" "weekday c0 < 5"
    and h: "0 < h"
    and rng: "min_ordinal \<le> toordinal c0" "toordinal c0 \<le> max_ordinal"
    and hi: "18 - of_int (hour c0) - of_int (minute c0) / 60 < h \<Longrightarrow>
       toordinal c0 + 3 * \<lceil>(h - (18 - of_int (hour c0) - of_int (minute c0) / 60)) / 9\<rceil>
         \<le> max_ordinal"
  shows "\<exists>c' h'. consume_today c0 h = Inr (c', h') \<and> room c' h'"
proof (cases "h \<le> 18 - of_int (hour c0) - of_int (minute c0) / 60")
  case True
  from finish_today [OF hr h True rng]
  have add: "dt_add c0 (timedelta_hours h) = Inr (c0 + timedelta_hours h)"
    and same: "toordinal (c0 + timedelta_hours h) = toordinal c0" .
  have "days_needed (c0 + timedelta_hours h) 0 = 0"
    using hours_available_nonneg [of "c0 + timedelta_hours h"] by (simp add: days_needed_def)
  with rng same have "room (c0 + timedelta_hours h) 0" by (simp add: room_def)
  moreover have "consume_today c0 h = Inr (c0 + timedelta_hours h, 0)"
    using True add by (simp add: consume_today_def)
  ultimately show ?thesis by blast
next
  case False
  let ?left = "18 - of_int (hour c0) - of_int (minute c0) / (60::rat)"
  from False have pos: "0 < h - ?left" by simp
  have pen: "weekend_days_passed c0 = 0"
    using wd by (simp add: weekend_days_passed_def)
  from False hi have "toordinal c0 + 3 * \<lceil>(h - ?left) / 9\<rceil> - weekend_days_passed c0 \<le> max_ordinal"
    by (simp add: pen)
  from room_next_day [OF refl _ _ pos rng(1) this] wd
  have add: "dt_add c0 (days 1) = Inr (c0 + days 1)"
    and room: "room (replace_9am (c0 + days 1)) (h - ?left)"
    by simp_all
  have "consume_today c0 h = Inr (replace_9am (c0 + days 1), h - ?left)"
    using False add by (simp add: consume_today_def)
  with room show ?thesis by blast
qed

lemma skip_day_room:
  assumes wd: "0 \<le> weekday c" "weekday c \<le> 6" and h: "0 < h"
    and avail: "hours_available c = 0" and room: "room c h"
  shows "\<exists>c' h'. (case dt_add c (days 1) of Inl e \<Rightarrow> Inl e | Inr t \<Rightarrow> Inr (replace_9am t, h))
      = Inr (c', h') \<and> room c' h'"
proof -
  from room h avail
  have "toordinal c + 3 * \<lceil>h / 9\<rceil> - weekend_days_passed c \<le> max_ordinal"
    and lo: "min_ordinal \<le> toordinal c"
    by (simp_all add: room_def days_needed_def)
  from room_next_day [OF refl wd(2) wd(1) h lo this(1)]
  have "dt_add c (days 1) = Inr (c + days 1)" and "room (replace_9am (c + days 1)) h" .
  then show ?thesis by simp
qed

lemma loop_body_room:
  assumes h: "0 < h" and room: "room c h"
  shows "\<exists>c' h'. loop_body c h = Inr (c', h') \<and> room c' h'"
proof (cases "5 \<le> weekday c")
  case True
  then have "hours_available c = 0" by (simp add: hours_available_def)
  from skip_day_room [OF weekday_bounds h this room] True show ?thesis
    by (simp add: loop_body_def)
next
  case wk: False
  then have wd: "0 \<le> weekday c" "weekday c < 5" using weekday_bounds(1) [of c] by simp_all
  note rng = room_in_range [OF room]
  show ?thesis
  proof (cases "hour c < 9")
    case True
    let ?s = "replace_9am c"
    have f: "toordinal ?s = toordinal c" "hour ?s = 9" "minute ?s = 0" "weekday ?s = weekday c"
      by (simp_all add: replace_9am_fields)
    have av: "hours_available c = 9" using wk True by (simp add: hours_available_def)
    have hi: "18 - of_int (hour ?s) - of_int (minute ?s) / 60 < h \<Longrightarrow>
       toordinal ?s + 3 * \<lceil>(h - (18 - of_int (hour ?s) - of_int (minute ?s) / 60)) / 9\<rceil>
         \<le> max_ordinal"
      using room wd by (simp add: f room_def days_needed_def av weekend_days_passed_def)
    from consume_today_room [of ?s h, OF _ _ _ _ h _ _ hi] wd rng
    have "\<exists>c' h'. consume_today ?s h = Inr (c', h') \<and> room c' h'"
      by (simp add: f)
    with wk True show ?thesis by (simp add: loop_body_def)
  next
    case early: False
    show ?thesis
    proof (cases "18 \<le> hour c")
      case True
      then have "hours_available c = 0" by (simp add: hours_available_def)
      from skip_day_room [OF weekday_bounds h this room] wk early True show ?thesis
        by (simp add: loop_body_def)
    next
      case False
      with early have hr: "9 \<le> hour c" "hour c < 18" by simp_all
      have av: "hours_available c = 18 - of_int (hour c) - of_int (minute c) / 60"
        using wk hr by (simp add: hours_available_def)
      have hi: "18 - of_int (hour c) - of_int (minute c) / 60 < h \<Longrightarrow>
         toordinal c + 3 * \<lceil>(h - (18 - of_int (hour c) - of_int (minute c) / 60)) / 9\<rceil>
           \<le> max_ordinal"
        using room wd by (simp add: room_def days_needed_def av weekend_days_passed_def)
      from consume_today_room [OF hr wd h rng hi]
      have "\<exists>c' h'. consume_today c h = Inr (c', h') \<and> room c' h'" .
      with wk early False show ?thesis by (simp add: loop_body_def)
    qed
  qed
qed

lemma add_business_hours_loop_room:
  assumes "room c h"
  shows "\<exists>r. add_business_hours_loop c h = Inr r \<and> in_range r"
  using assms
proof (induction c h rule: add_business_hours_loop.induct)
  case (1 c h)
  show ?case
  proof (cases "0 < h")
    case True
    from loop_body_room [OF True "1.prems"] obtain c' h'
      where body: "loop_body c h = Inr (c', h')" and room': "room c' h'"
      by blast
    from "1.IH" [OF True body refl room'] body True show ?thesis
      by (simp add: add_business_hours_loop.simps [of c h])
  next
    case False
    with room_in_range [OF "1.prems"] show ?thesis
      by (simp add: add_business_hours_loop.simps [of c h] in_range_def)
  qed
qed

text \<open>
  C5, as the code has it. For every start instant in the range of \<^verbatim>\<open>datetime\<close> and every
  non-negative, possibly fractional, number of hours, the function returns an instant in
  that range, provided that three calendar days for every nine hours asked for still fit
  before \<^verbatim>\<open>date.max\<close>.
\<close>

theorem add_business_hours_returns:
  assumes "in_range start_time" and "0 \<le> hours"
    and "toordinal start_time + 3 * \<lceil>hours / 9\<rceil> \<le> max_ordinal"
  shows "\<exists>r. add_business_hours start_time hours = Inr r \<and> in_range r"
proof -
  have "days_needed start_time hours \<le> 3 * \<lceil>hours / 9\<rceil>"
  proof (cases "hours \<le> hours_available start_time")
    case True
    moreover from assms(2) have "0 \<le> \<lceil>hours / 9\<rceil>" by simp
    ultimately show ?thesis by (simp add: days_needed_def)
  next
    case False
    have "(hours - hours_available start_time) / 9 \<le> hours / 9"
      using hours_available_nonneg [of start_time] by simp
    then have "\<lceil>(hours - hours_available start_time) / 9\<rceil> \<le> \<lceil>hours / 9\<rceil>"
      by (rule ceiling_mono)
    moreover have "0 \<le> weekend_days_passed start_time"
      by (simp add: weekend_days_passed_def)
    ultimately show ?thesis using False by (simp add: days_needed_def)
  qed
  with assms(1,3) have "room start_time hours"
    by (simp add: room_def in_range_def)
  from add_business_hours_loop_room [OF this] show ?thesis
    by (simp add: add_business_hours_def)
qed

text \<open>
  Two and a half hours from Friday 5 January 2024, 17:00: one hour on Friday and one and a
  half on Monday, which gives Monday 8 January, 10:30.
\<close>

theorem add_business_hours_returns_witness:
  "in_range (mk_datetime 2024 1 5 17 0 0 0) \<and> (0::rat) \<le> 5 / 2
   \<and> toordinal (mk_datetime 2024 1 5 17 0 0 0) + 3 * \<lceil>(5 / 2 :: rat) / 9\<rceil> \<le> max_ordinal
   \<and> (\<exists>r. add_business_hours (mk_datetime 2024 1 5 17 0 0 0) (5 / 2) = Inr r \<and> in_range r)
   \<and> add_business_hours (mk_datetime 2024 1 5 17 0 0 0) (5 / 2)
       = Inr (mk_datetime 2024 1 8 10 30 0 0)"
proof -
  let ?t = "mk_datetime 2024 1 5 17 0 0 0"
  have n: "\<lceil>(5 / 2 :: rat) / 9\<rceil> = 1"
    by (simp add: ceiling_eq_iff)
  have a: "in_range ?t" and b: "(0::rat) \<le> 5 / 2"
    and c: "toordinal ?t + 3 * \<lceil>(5 / 2 :: rat) / 9\<rceil> \<le> max_ordinal"
    unfolding n by (simp_all add: calendar_defs field_defs)
  have "add_business_hours ?t (5 / 2) = Inr (mk_datetime 2024 1 8 10 30 0 0)"
    by code_simp
  with a b c add_business_hours_returns [OF a b c] show ?thesis by blast
qed

text \<open>
  C5, as the claim states it, fails: from Friday 31 December 9999, 17:00, two hours need a
  day that \<^verbatim>\<open>datetime\<close> cannot hold, and the call raises \<^verbatim>\<open>OverflowError\<close>.
\<close>

theorem add_business_hours_overflow:
  "in_range (mk_datetime 9999 12 31 17 0 0 0) \<and> (0::rat) \<le> 2
   \<and> add_business_hours (mk_datetime 9999 12 31 17 0 0 0) 2 = Inl OverflowError"
  by code_simp

section \<open>Properties of breach scanning\<close>

text \<open>
  What each loop appends: one record per ticket it is given, in the order of the tickets,
  each of the loop's breach type and with a positive duration, since the query only
  returns tickets whose due instant is before the query instant.
\<close>

lemma append_first_response_char:
  assumes "list_all (\<lambda>t. due_before (first_response_due t) now) ts"
  shows "\<exists>new. append_first_response now ts acc = Inr (acc @ new)
           \<and> map ticket_id new = map id_pk ts
           \<and> list_all (\<lambda>r. breach_type r = ''first_response'' \<and> 0 < breach_duration r) new"
  using assms
proof (induction ts arbitrary: acc)
  case Nil
  then show ?case by simp
next
  case (Cons t ts)
  from Cons.prems obtain due where due: "first_response_due t = Some due" "due < now"
    by (auto simp: due_before_def split: option.splits)
  let ?r = "\<lparr>ticket_id = id_pk t, breach_type = ''first_response'',
             breach_duration = now - due, priority = ticket.priority t,
             customer_tier = customer_tier_of t\<rparr>"
  from Cons.prems have "list_all (\<lambda>t. due_before (first_response_due t) now) ts" by simp
  from Cons.IH [OF this, of "acc @ [?r]"] obtain new
    where new: "append_first_response now ts (acc @ [?r]) = Inr ((acc @ [?r]) @ new)"
      "map ticket_id new = map id_pk ts"
      "list_all (\<lambda>r. breach_type r = ''first_response'' \<and> 0 < breach_duration r) new"
    by blast
  have "append_first_response now (t # ts) acc = Inr (acc @ (?r # new))"
    using due new(1) by simp
  moreover have "map ticket_id (?r # new) = map id_pk (t # ts)"
    using new(2) by simp
  moreover have "list_all (\<lambda>r. breach_type r = ''first_response'' \<and> 0 < breach_duration r) (?r # new)"
    using new(3) due(2) by simp
  ultimately show ?case by blast
qed

lemma append_resolution_char:
  assumes "list_all (\<lambda>t. due_before (resolution_due t) now) ts"
  shows "\<exists>new. append_resolution now ts acc = Inr (acc @ new)
           \<and> map ticket_id new = map id_pk ts
           \<and> list_all (\<lambda>r. breach_type r = ''resolution'' \<and> 0 < breach_duration r) new"
  using assms
proof (induction ts arbitrary: acc)
  case Nil
  then show ?case by simp
next
  case (Cons t ts)
  from Cons.prems obtain due where due: "resolution_due t = Some due" "due < now"
    by (auto simp: due_before_def split: option.splits)
  let ?r = "\<lparr>ticket_id = id_pk t, breach_type = ''resolution'',
             breach_duration = now - due, priority = ticket.priority t,
             customer_tier = customer_tier_of t\<rparr>"
  from Cons.prems have "list_all (\<lambda>t. due_before (resolution_due t) now) ts" by simp
  from Cons.IH [OF this, of "acc @ [?r]"] obtain new
    where new: "append_resolution now ts (acc @ [?r]) = Inr ((acc @ [?r]) @ new)"
      "map ticket_id new = map id_pk ts"
      "list_all (\<lambda>r. breach_type r = ''resolution'' \<and> 0 < breach_duration r) new"
    by blast
  have "append_resolution now (t # ts) acc = Inr (acc @ (?r # new))"
    using due new(1) by simp
  moreover have "map ticket_id (?r # new) = map id_pk (t # ts)"
    using new(2) by simp
  moreover have "list_all (\<lambda>r. breach_type r = ''resolution'' \<and> 0 < breach_duration r) (?r # new)"
    using new(3) due(2) by simp
  ultimately show ?case by blast
qed

lemma check_sla_breaches_char:
  "\<exists>frs rss. check_sla_breaches db now = Inr (frs @ rss)
     \<and> map ticket_id frs = map id_pk (first_response_breaches db now)
     \<and> list_all (\<lambda>r. breach_type r = ''first_response'' \<and> 0 < breach_duration r) frs
     \<and> map ticket_id rss = map id_pk (resolution_breaches db now)
     \<and> list_all (\<lambda>r. breach_type r = ''resolution'' \<and> 0 < breach_duration r) rss"
proof -
  have "list_all (\<lambda>t. due_before (first_response_due t) now) (first_response_breaches db now)"
    by (simp add: first_response_breaches_def list_all_iff)
  from append_first_response_char [OF this, of "[]"] obtain frs
    where frs: "append_first_response now (first_response_breaches db now) [] = Inr frs"
      "map ticket_id frs = map id_pk (first_response_breaches db now)"
      "list_all (\<lambda>r. breach_type r = ''first_response'' \<and> 0 < breach_duration r) frs"
    by auto
  have "list_all (\<lambda>t. due_before (resolution_due t) now) (resolution_breaches db now)"
    by (simp add: resolution_breaches_def list_all_iff)
  from append_resolution_char [OF this, of frs] obtain rss
    where rss: "append_resolution now (resolution_breaches db now) frs = Inr (frs @ rss)"
      "map ticket_id rss = map id_pk (resolution_breaches db now)"
      "list_all (\<lambda>r. breach_type r = ''resolution'' \<and> 0 < breach_duration r) rss"
    by auto
  have "check_sla_breaches db now = Inr (frs @ rss)"
    by (simp add: check_sla_breaches_def frs(1) rss(1))
  with frs(2,3) rss(2,3) show ?thesis by blast
qed

lemma count_id_filter:
  assumes "distinct (map id_pk ts)" and "t \<in> set ts"
  shows "length (filter (\<lambda>x. id_pk x = id_pk t) (filter P ts)) = (if P t then 1 else 0)"
  using assms
proof (induction ts)
  case Nil
  then show ?case by simp
next
  case (Cons a ts)
  show ?case
  proof (cases "a = t")
    case True
    from Cons.prems(1) have "\<forall>x\<in>set ts. id_pk x \<noteq> id_pk t"
      using True by (fastforce simp: image_iff)
    then have "filter (\<lambda>x. id_pk x = id_pk t) (filter P ts) = []"
      by (simp add: filter_empty_conv)
    with True show ?thesis by simp
  next
    case False
    with Cons.prems have t: "t \<in> set ts" and d: "distinct (map id_pk ts)" by auto
    from Cons.prems(1) t have "id_pk a \<noteq> id_pk t" by auto
    with Cons.IH [OF d t] show ?thesis by (cases "P t"; cases "P a") simp_all
  qed
qed

lemma count_by_key:
  assumes "map f xs = map g ys"
  shows "length (filter (\<lambda>x. f x = i) xs) = length (filter (\<lambda>y. g y = i) ys)"
proof -
  have "length (filter (\<lambda>x. f x = i) xs) = length (filter (\<lambda>j. j = i) (map f xs))"
    by (simp add: filter_map comp_def)
  also have "\<dots> = length (filter (\<lambda>j. j = i) (map g ys))"
    by (simp only: assms)
  also have "\<dots> = length (filter (\<lambda>y. g y = i) ys)"
    by (simp add: filter_map comp_def)
  finally show ?thesis .
qed

lemma filter_typed:
  assumes "list_all (\<lambda>r. breach_type r = ty \<and> Q r) rs"
  shows "filter (\<lambda>r. ticket_id r = i \<and> breach_type r = ty) rs = filter (\<lambda>r. ticket_id r = i) rs"
    and "ty' \<noteq> ty \<Longrightarrow> filter (\<lambda>r. ticket_id r = i \<and> breach_type r = ty') rs = []"
    and "filter (\<lambda>r. breach_type r = ty) rs = rs"
    and "ty' \<noteq> ty \<Longrightarrow> filter (\<lambda>r. breach_type r = ty') rs = []"
  using assms by (induction rs) auto

lemmas example_defs =
  example_db_def ticket_unanswered_def ticket_closed_def ticket_late_response_def
  ticket_on_time_def example_ticket_def example_now_def

text \<open>
  C1. For every ticket of the database (identified by its primary key) and every query
  instant, the scan returns exactly one first-response record for the ticket if its
  first_response_at is null, its first_response_due is before the query instant and its
  status is not closed, and none otherwise; likewise exactly one resolution record if its
  resolved_at is null, its resolution_due is before the query instant and its status is
  not closed, and none otherwise. The records of a ticket are these and no others: a
  closed ticket has none, a ticket meeting both conditions has two.
\<close>

theorem breach_records_per_ticket:
  assumes "distinct (map id_pk db)" and "t \<in> set db"
  shows "\<exists>out. check_sla_breaches db now = Inr out
     \<and> length (filter (\<lambda>r. ticket_id r = id_pk t \<and> breach_type r = ''first_response'') out)
         = (if first_response_at t = None
               \<and> (\<exists>due. first_response_due t = Some due \<and> due < now)
               \<and> status t \<noteq> ''closed'' then 1 else 0)
     \<and> length (filter (\<lambda>r. ticket_id r = id_pk t \<and> breach_type r = ''resolution'') out)
         = (if resolved_at t = None
               \<and> (\<exists>due. resolution_due t = Some due \<and> due < now)
               \<and> status t \<noteq> ''closed'' then 1 else 0)
     \<and> length (filter (\<lambda>r. ticket_id r = id_pk t) out)
         = length (filter (\<lambda>r. ticket_id r = id_pk t \<and> breach_type r = ''first_response'') out)
           + length (filter (\<lambda>r. ticket_id r = id_pk t \<and> breach_type r = ''resolution'') out)"
proof -
  let ?P = "\<lambda>t. due_before (first_response_due t) now \<and> first_response_at t = None
                \<and> status t \<noteq> ''closed''"
  let ?Q = "\<lambda>t. due_before (resolution_due t) now \<and> resolved_at t = None
                \<and> status t \<noteq> ''closed''"
  from check_sla_breaches_char [of db now] obtain frs rss
    where out: "check_sla_breaches db now = Inr (frs @ rss)"
      and frs: "map ticket_id frs = map id_pk (first_response_breaches db now)"
        "list_all (\<lambda>r. breach_type r = ''first_response'' \<and> 0 < breach_duration r) frs"
      and rss: "map ticket_id rss = map id_pk (resolution_breaches db now)"
        "list_all (\<lambda>r. breach_type r = ''resolution'' \<and> 0 < breach_duration r) rss"
    by blast
  let ?i = "id_pk t"
  have fr_count: "length (filter (\<lambda>r. ticket_id r = ?i) frs) = (if ?P t then 1 else 0)"
    using count_id_filter [OF assms, of ?P] count_by_key [OF frs(1), of ?i]
    by (simp add: first_response_breaches_def)
  have rs_count: "length (filter (\<lambda>r. ticket_id r = ?i) rss) = (if ?Q t then 1 else 0)"
    using count_id_filter [OF assms, of ?Q] count_by_key [OF rss(1), of ?i]
    by (simp add: resolution_breaches_def)
  have P: "?P t \<longleftrightarrow> first_response_at t = None
      \<and> (\<exists>due. first_response_due t = Some due \<and> due < now) \<and> status t \<noteq> ''closed''"
    by (auto simp: due_before_def split: option.splits)
  have Q: "?Q t \<longleftrightarrow> resolved_at t = None
      \<and> (\<exists>due. resolution_due t = Some due \<and> due < now) \<and> status t \<noteq> ''closed''"
    by (auto simp: due_before_def split: option.splits)
  have a: "length (filter (\<lambda>r. ticket_id r = ?i \<and> breach_type r = ''first_response'') (frs @ rss))
      = (if ?P t then 1 else 0)"
    using fr_count by (simp add: filter_typed(1) [OF frs(2)] filter_typed(2) [OF rss(2)])
  have b: "length (filter (\<lambda>r. ticket_id r = ?i \<and> breach_type r = ''resolution'') (frs @ rss))
      = (if ?Q t then 1 else 0)"
    using rs_count by (simp add: filter_typed(1) [OF rss(2)] filter_typed(2) [OF frs(2)])
  have c: "length (filter (\<lambda>r. ticket_id r = ?i) (frs @ rss))
      = (if ?P t then 1 else 0) + (if ?Q t then 1 else 0)"
    using fr_count rs_count by simp
  show ?thesis
    unfolding out using a b c unfolding P Q by (intro exI conjI) (rule refl, simp_all)
qed

text \<open>
  In the example database at the example instant, the unanswered open ticket has one
  record of each type, two in all, and the closed ticket, past both due instants, has none.
\<close>

theorem breach_records_per_ticket_witness:
  "distinct (map id_pk example_db)
   \<and> ticket_unanswered \<in> set example_db \<and> ticket_closed \<in> set example_db
   \<and> (\<exists>out. check_sla_breaches example_db example_now = Inr out
         \<and> length (filter (\<lambda>r. ticket_id r = 1 \<and> breach_type r = ''first_response'') out) = 1
         \<and> length (filter (\<lambda>r. ticket_id r = 1 \<and> breach_type r = ''resolution'') out) = 1
         \<and> length (filter (\<lambda>r. ticket_id r = 1) out) = 2
         \<and> length (filter (\<lambda>r. ticket_id r = 2) out) = 0)"
proof -
  have d: "distinct (map id_pk example_db)"
    and m1: "ticket_unanswered \<in> set example_db"
    and m2: "ticket_closed \<in> set example_db"
    by (simp_all add: example_defs)
  from breach_records_per_ticket [OF d m1, of example_now] obtain out
    where out: "check_sla_breaches example_db example_now = Inr out"
      and a: "length (filter (\<lambda>r. ticket_id r = 1 \<and> breach_type r = ''first_response'') out) = 1"
      and b: "length (filter (\<lambda>r. ticket_id r = 1 \<and> breach_type r = ''resolution'') out) = 1"
      and c: "length (filter (\<lambda>r. ticket_id r = 1) out) = 2"
    by (auto simp: example_defs calendar_defs)
  from breach_records_per_ticket [OF d m2, of example_now] out
  have "length (filter (\<lambda>r. ticket_id r = 2) out) = 0"
    by (auto simp: example_defs calendar_defs)
  with d m1 m2 out a b c show ?thesis by blast
qed

text \<open>
  C6. In the returned list every first-response record precedes every resolution record:
  the list is its first-response records followed by its resolution records. Within each
  type the records are in the order of their tickets in the database: the ticket ids of
  the first-response records are the ids of the database rows that are unanswered, past
  their first-response due instant and not closed, in the order of the rows, and likewise
  the ids of the resolution records with the rows that are unresolved, past their
  resolution due instant and not closed.
\<close>

theorem breach_order_stable:
  "\<exists>out. check_sla_breaches db now = Inr out
     \<and> out = filter (\<lambda>r. breach_type r = ''first_response'') out
             @ filter (\<lambda>r. breach_type r = ''resolution'') out
     \<and> map ticket_id (filter (\<lambda>r. breach_type r = ''first_response'') out)
         = map id_pk (filter (\<lambda>t. first_response_at t = None
                                  \<and> (\<exists>due. first_response_due t = Some due \<and> due < now)
                                  \<and> status t \<noteq> ''closed'') db)
     \<and> map ticket_id (filter (\<lambda>r. breach_type r = ''resolution'') out)
         = map id_pk (filter (\<lambda>t. resolved_at t = None
                                  \<and> (\<exists>due. resolution_due t = Some due \<and> due < now)
                                  \<and> status t \<noteq> ''closed'') db)"
proof -
  from check_sla_breaches_char [of db now] obtain frs rss
    where out: "check_sla_breaches db now = Inr (frs @ rss)"
      and frs: "map ticket_id frs = map id_pk (first_response_breaches db now)"
        "list_all (\<lambda>r. breach_type r = ''first_response'' \<and> 0 < breach_duration r) frs"
      and rss: "map ticket_id rss = map id_pk (resolution_breaches db now)"
        "list_all (\<lambda>r. breach_type r = ''resolution'' \<and> 0 < breach_duration r) rss"
    by blast
  have f: "filter (\<lambda>r. breach_type r = ''first_response'') (frs @ rss) = frs"
    by (simp add: filter_typed(3) [OF frs(2)] filter_typed(4) [OF rss(2)])
  have r: "filter (\<lambda>r. breach_type r = ''resolution'') (frs @ rss) = rss"
    by (simp add: filter_typed(3) [OF rss(2)] filter_typed(4) [OF frs(2)])
  have fq: "first_response_breaches db now =
      filter (\<lambda>t. first_response_at t = None
                  \<and> (\<exists>due. first_response_due t = Some due \<and> due < now)
                  \<and> status t \<noteq> ''closed'') db"
    unfolding first_response_breaches_def
    by (rule filter_cong) (auto simp: due_before_def split: option.splits)
  have rq: "resolution_breaches db now =
      filter (\<lambda>t. resolved_at t = None
                  \<and> (\<exists>due. resolution_due t = Some due \<and> due < now)
                  \<and> status t \<noteq> ''closed'') db"
    unfolding resolution_breaches_def
    by (rule filter_cong) (auto simp: due_before_def split: option.splits)
  show ?thesis
    unfolding out
    by (intro exI conjI) (rule refl, simp_all only: f r frs(1) rss(1) fq rq)
qed

text \<open>
  C10. The scan returns a list, and every record in it has a breach duration greater
  than zero.
\<close>

theorem breach_duration_positive:
  "\<exists>out. check_sla_breaches db now = Inr out \<and> list_all (\<lambda>r. 0 < breach_duration r) out"
proof -
  from check_sla_breaches_char [of db now] obtain frs rss
    where out: "check_sla_breaches db now = Inr (frs @ rss)"
      and frs: "list_all (\<lambda>r. breach_type r = ''first_response'' \<and> 0 < breach_duration r) frs"
      and rss: "list_all (\<lambda>r. breach_type r = ''resolution'' \<and> 0 < breach_duration r) rss"
    by blast
  from frs rss have "list_all (\<lambda>r. 0 < breach_duration r) (frs @ rss)"
    by (auto simp: list_all_iff)
  with out show ?thesis by blast
qed

section \<open>Properties of the compliance report\<close>




lemma float64_0: "float64 0 = 0"
  by (simp add: float64_def)

text \<open>Some floats: 0.1, 1 / 3, 0.1 + 0.2 and the sum of ten times 0.1, which is not 1.\<close>

lemma float64_examples:
  "float64 (1 / 10) = 3602879701896397 / 36028797018963968"
  "float64 (1 / 3) = 6004799503160661 / 18014398509481984"
  "float64 (float64 (1 / 10) + float64 (2 / 10)) = 1351079888211149 / 4503599627370496"
  "py_sum (replicate 10 (float64 (1 / 10))) = 9007199254740991 / 9007199254740992"
  by code_simp+

lemma round2_0: "round2 0 = 0"
  by (simp add: round2_def round_half_even_def float64_0)





lemma inverted_range_selects_nothing:
  assumes "end_date < start_date"
  shows "query_tickets db start_date end_date category_arg = []"
proof -
  have "filter (\<lambda>t. start_date \<le> created_at t \<and> created_at t \<le> end_date) db = []"
    using assms by (auto simp: filter_empty_conv)
  then show ?thesis
    by (simp add: query_tickets_def split: option.splits)
qed

lemmas report_defs =
  generate_sla_report_def query_tickets_def count_ticket_def average_def compliance_def
  truediv_def round2_def round_half_even_def float64_0

text \<open>
  C7. When the query selects no ticket, the report is returned (no error, in particular no
  division by zero), with total_tickets = 0 and both compliance rates 0; the counts of
  tickets that met their due instant and both averages are 0 too.
\<close>

theorem empty_selection_zero_report:
  assumes "query_tickets db start_date end_date category_arg = []"
  shows "\<exists>r. generate_sla_report db start_date end_date category_arg = Inr r
     \<and> total_tickets r = 0
     \<and> first_response_section.compliance_rate (first_response_sla r) = 0
     \<and> compliance_rate (resolution_sla r) = 0
     \<and> first_response_section.tickets_met (first_response_sla r) = 0
     \<and> tickets_met (resolution_sla r) = 0
     \<and> avg_response_time_hours (first_response_sla r) = 0
     \<and> avg_resolution_time_hours (resolution_sla r) = 0"
  by (simp add: generate_sla_report_def assms average_def compliance_def round2_0)

text \<open>
  No example ticket has the category network: the selection is empty although the database
  is not, and the report is the zero report.
\<close>

theorem empty_selection_zero_report_witness:
  "query_tickets example_db (mk_datetime 2024 1 1 0 0 0 0) (mk_datetime 2024 1 31 0 0 0 0)
      (Some ''network'') = []
   \<and> (\<exists>r. generate_sla_report example_db (mk_datetime 2024 1 1 0 0 0 0)
              (mk_datetime 2024 1 31 0 0 0 0) (Some ''network'') = Inr r
         \<and> total_tickets r = 0
         \<and> first_response_section.compliance_rate (first_response_sla r) = 0
         \<and> compliance_rate (resolution_sla r) = 0)"
proof -
  have q: "query_tickets example_db (mk_datetime 2024 1 1 0 0 0 0)
      (mk_datetime 2024 1 31 0 0 0 0) (Some ''network'') = []"
    by (simp add: query_tickets_def example_defs calendar_defs)
  from empty_selection_zero_report [OF q] q show ?thesis by blast
qed

text \<open>
  C8, as the code has it. The function does not compare the two ends of the range: when
  the end is before the start no creation instant lies in the range, and the zero report
  for that period is returned; no error is raised.
\<close>

theorem inverted_range_zero_report:
  assumes "end_date < start_date"
  shows "generate_sla_report db start_date end_date category_arg =
     Inr \<lparr>period = (start_date, end_date), total_tickets = 0,
          first_response_sla =
            \<lparr>first_response_section.compliance_rate = 0,
             first_response_section.tickets_met = 0, avg_response_time_hours = 0\<rparr>,
          resolution_sla =
            \<lparr>compliance_rate = 0, tickets_met = 0, avg_resolution_time_hours = 0\<rparr>\<rparr>"
  by (simp add: generate_sla_report_def inverted_range_selects_nothing [OF assms]
      average_def compliance_def round2_0)

text \<open>The instance of the example database and the range from 31 January back to 1 January 2024.\<close>

theorem inverted_range_zero_report_witness:
  "mk_datetime 2024 1 1 0 0 0 0 < mk_datetime 2024 1 31 0 0 0 0
   \<and> generate_sla_report example_db (mk_datetime 2024 1 31 0 0 0 0)
       (mk_datetime 2024 1 1 0 0 0 0) None =
     Inr \<lparr>period = (mk_datetime 2024 1 31 0 0 0 0, mk_datetime 2024 1 1 0 0 0 0),
          total_tickets = 0,
          first_response_sla =
            \<lparr>first_response_section.compliance_rate = 0,
             first_response_section.tickets_met = 0, avg_response_time_hours = 0\<rparr>,
          resolution_sla =
            \<lparr>compliance_rate = 0, tickets_met = 0, avg_resolution_time_hours = 0\<rparr>\<rparr>"
proof -
  have lt: "mk_datetime 2024 1 1 0 0 0 0 < mk_datetime 2024 1 31 0 0 0 0"
    by (simp add: calendar_defs)
  from inverted_range_zero_report [OF lt, of example_db None] lt show ?thesis by blast
qed

text \<open>
  C8, as the claim states it, fails: for the range from 9 January 2024 back to 8 January
  2024 and the one ticket answered and resolved in time, the call returns a report.
\<close>

theorem inverted_range_not_rejected:
  "generate_sla_report [ticket_on_time] (mk_datetime 2024 1 9 0 0 0 0)
       (mk_datetime 2024 1 8 0 0 0 0) (Some ''billing'') =
     Inr \<lparr>period = (mk_datetime 2024 1 9 0 0 0 0, mk_datetime 2024 1 8 0 0 0 0),
          total_tickets = 0,
          first_response_sla =
            \<lparr>first_response_section.compliance_rate = 0,
             first_response_section.tickets_met = 0, avg_response_time_hours = 0\<rparr>,
          resolution_sla =
            \<lparr>compliance_rate = 0, tickets_met = 0, avg_resolution_time_hours = 0\<rparr>\<rparr>"
  by (simp add: report_defs example_defs calendar_defs)



text \<open>
  The rounding is that of the float. For a single ticket answered after 9630 seconds the
  mean is the float nearest to 2.675, which lies below 2.675, so the report gives the float
  2.67, and not 2.68 as rounding the decimal number 2.675 to the even digit would.
\<close>

lemma average_rounds_the_float:
  "generate_sla_report [ticket_answered_1140] (mk_datetime 2024 1 1 0 0 0 0)
     (mk_datetime 2024 1 31 0 0 0 0) None =
   Inr \<lparr>period = (mk_datetime 2024 1 1 0 0 0 0, mk_datetime 2024 1 31 0 0 0 0),
        total_tickets = 1,
        first_response_sla =
          \<lparr>first_response_section.compliance_rate = 100,
           first_response_section.tickets_met = 1,
           avg_response_time_hours = float64 (267 / 100)\<rparr>,
        resolution_sla =
          \<lparr>compliance_rate = 0, tickets_met = 0, avg_resolution_time_hours = 0\<rparr>\<rparr>"
  by code_simp

lemma float64_267_hundredths:
  "float64 (267 / 100) = 1503076375634903 / 562949953421312"
  "float64 (float64 9630 / 3600) = 3011782250804019 / 1125899906842624"
  "float64 (float64 9630 / 3600) < 2675 / 1000"
  by code_simp+

end
